theory Spec2Isabelle
  imports Main
begin

section \<open>JavaScript values\<close>

text \<open>
  The utilities work on in-memory JavaScript values. A property key is a string or a
  symbol; the symbols of the \<open>Op\<close> table (imported from outside the two source files) are
  the operator symbols, every other symbol is an ordinary one. A plain object is the list
  of its own enumerable properties in insertion order; objects that are not plain (model
  instances, dates, ...) are opaque and carry no enumerable property. A function is
  opaque too, except for what its \<open>clone\<close> method returns when it has one. Numbers are
  integers, strings are lists of 8-bit characters. The keys of an object are pairwise
  distinct; the statements that depend on it say so.
\<close>

datatype key = SKey string | OpSym nat | OtherSym nat

datatype jsval =
    Undefined
  | Null
  | Bool bool
  | Num int
  | Str string
  | Arr "jsval list"
  | Obj "(key \<times> jsval) list"
  | Opaque nat
  | Func nat "jsval option"

text \<open>Reading \<open>obj[key]\<close> on a property list: a missing property reads as \<open>undefined\<close>.\<close>

fun getProp :: "(key \<times> jsval) list \<Rightarrow> key \<Rightarrow> jsval" where
  "getProp [] k = Undefined"
| "getProp ((k', v) # kvs) k = (if k' = k then v else getProp kvs k)"

text \<open>\<open>obj[key] = v\<close>: overwrite in place, or append a new property.\<close>

fun setProp :: "(key \<times> jsval) list \<Rightarrow> key \<Rightarrow> jsval \<Rightarrow> (key \<times> jsval) list" where
  "setProp [] k v = [(k, v)]"
| "setProp ((k', v') # kvs) k v =
     (if k' = k then (k, v) # kvs else (k', v') # setProp kvs k v)"

text \<open>\<open>delete obj[key]\<close>.\<close>

definition deleteProp :: "(key \<times> jsval) list \<Rightarrow> key \<Rightarrow> (key \<times> jsval) list" where
  "deleteProp kvs k = filter (\<lambda>p. fst p \<noteq> k) kvs"

definition hasProp :: "(key \<times> jsval) list \<Rightarrow> key \<Rightarrow> bool" where
  "hasProp kvs k = (k \<in> set (map fst kvs))"

section \<open>Tests on values\<close>

text \<open>Truthiness, \<open>Array.isArray\<close>, lodash's \<open>isPlainObject\<close>, \<open>typeof v === 'object'\<close>.\<close>

fun truthy :: "jsval \<Rightarrow> bool" where
  "truthy Undefined = False"
| "truthy Null = False"
| "truthy (Bool b) = b"
| "truthy (Num n) = (n \<noteq> 0)"
| "truthy (Str s) = (s \<noteq> [])"
| "truthy _ = True"

fun isArray :: "jsval \<Rightarrow> bool" where
  "isArray (Arr xs) = True"
| "isArray _ = False"

fun isPlainObject :: "jsval \<Rightarrow> bool" where
  "isPlainObject (Obj kvs) = True"
| "isPlainObject _ = False"

fun typeofObject :: "jsval \<Rightarrow> bool" where
  "typeofObject Null = True"
| "typeofObject (Arr xs) = True"
| "typeofObject (Obj kvs) = True"
| "typeofObject (Opaque n) = True"
| "typeofObject _ = False"

section \<open>cloneDeep\<close>

text \<open>
  \<open>cloneDeepWith\<close> of lodash asks the customizer at every value and clones by its own
  rules where the customizer returns \<open>undefined\<close>. The customizer of \<open>cloneDeep\<close> leaves
  arrays and plain objects to lodash, which rebuilds them element by element and property
  by property (string and symbol keys alike); it returns every other object as it is;
  with \<open>onlyPlain\<close> it returns every other value as it is; otherwise a value with a \<open>clone\<close>
  method is replaced by the result of that method. Where the customizer has no answer,
  lodash returns a primitive as it is, a function that sits inside an array or object as
  it is, and turns a function at the top into an empty object.
\<close>

fun cloneValue :: "bool \<Rightarrow> jsval \<Rightarrow> jsval" where
  "cloneValue onlyPlain (Arr xs) = Arr (map (cloneValue onlyPlain) xs)"
| "cloneValue onlyPlain (Obj kvs) = Obj (map (\<lambda>(k, v). (k, cloneValue onlyPlain v)) kvs)"
| "cloneValue onlyPlain (Func n c) =
     (if onlyPlain then Func n c
      else (case c of
              Some r \<Rightarrow> if r \<noteq> Undefined then r else Func n c
            | None \<Rightarrow> Func n c))"
| "cloneValue onlyPlain v = v"

definition cloneDeep :: "jsval \<Rightarrow> bool \<Rightarrow> jsval" where
  "cloneDeep obj onlyPlain =
     (if \<not> truthy obj then Obj []
      else (case obj of
              Func n c \<Rightarrow>
                (if onlyPlain then Func n c
                 else (case c of
                         Some r \<Rightarrow> if r \<noteq> Undefined then r else Obj []
                       | None \<Rightarrow> Obj []))
            | _ \<Rightarrow> cloneValue onlyPlain obj))"

section \<open>Keys of a where-clause\<close>

fun isOperator :: "key \<Rightarrow> bool" where
  "isOperator (OpSym n) = True"
| "isOperator _ = False"

fun isSymbol :: "key \<Rightarrow> bool" where
  "isSymbol (SKey s) = False"
| "isSymbol _ = True"

definition ownKeys :: "(key \<times> 'v) list \<Rightarrow> key list" where
  "ownKeys kvs = map fst kvs"

definition getOperators :: "(key \<times> 'v) list \<Rightarrow> key list" where
  "getOperators obj = filter isOperator (filter isSymbol (ownKeys obj))"

definition objectKeys :: "(key \<times> 'v) list \<Rightarrow> key list" where
  "objectKeys obj = filter (\<lambda>k. \<not> isSymbol k) (ownKeys obj)"

definition getComplexKeys :: "(key \<times> 'v) list \<Rightarrow> key list" where
  "getComplexKeys obj = getOperators obj @ objectKeys obj"

section \<open>combineTableNames\<close>

definition char_code :: "char \<Rightarrow> nat" where
  "char_code c = of_char c"

definition lower_char :: "char \<Rightarrow> char" where
  "lower_char c =
     (if char_code CHR ''A'' \<le> char_code c \<and> char_code c \<le> char_code CHR ''Z''
      then char_of (char_code c + 32) else c)"

definition toLowerCase :: "string \<Rightarrow> string" where
  "toLowerCase s = map lower_char s"

text \<open>The \<open><\<close> of JavaScript on two strings: lexicographic on the character codes.\<close>

fun str_lt :: "string \<Rightarrow> string \<Rightarrow> bool" where
  "str_lt [] [] = False"
| "str_lt [] (y # ys) = True"
| "str_lt (x # xs) [] = False"
| "str_lt (x # xs) (y # ys) =
     (if char_code x < char_code y then True
      else if char_code y < char_code x then False
      else str_lt xs ys)"

definition combineTableNames :: "string \<Rightarrow> string \<Rightarrow> string" where
  "combineTableNames tableName1 tableName2 =
     (if str_lt (toLowerCase tableName1) (toLowerCase tableName2)
      then tableName1 @ tableName2
      else tableName2 @ tableName1)"

section \<open>removeNullValuesFromHash\<close>

text \<open>Decimal rendering of an array index, as JavaScript names the property.\<close>

definition digit_char :: "nat \<Rightarrow> char" where
  "digit_char d = char_of (48 + d)"

fun show_nat :: "nat \<Rightarrow> string" where
  "show_nat n = (if n < 10 then [digit_char n] else show_nat (n div 10) @ [digit_char (n mod 10)])"

declare show_nat.simps [simp del]

text \<open>
  The properties lodash's \<open>forIn\<close> visits: the enumerable string-keyed properties, own and
  inherited. Plain values inherit nothing enumerable; an array and a string are visited
  index by index; symbol keys are never visited; \<open>null\<close>, \<open>undefined\<close>, numbers, booleans
  and opaque objects contribute nothing.
\<close>

fun string_entries :: "(key \<times> jsval) list \<Rightarrow> (string \<times> jsval) list" where
  "string_entries [] = []"
| "string_entries ((SKey s, v) # kvs) = (s, v) # string_entries kvs"
| "string_entries (_ # kvs) = string_entries kvs"

definition index_entries :: "jsval list \<Rightarrow> (string \<times> jsval) list" where
  "index_entries xs = map (\<lambda>i. (show_nat i, xs ! i)) [0..<length xs]"

fun forInEntries :: "jsval \<Rightarrow> (string \<times> jsval) list" where
  "forInEntries (Obj kvs) = string_entries kvs"
| "forInEntries (Arr xs) = index_entries xs"
| "forInEntries (Str s) = index_entries (map (\<lambda>c. Str [c]) s)"
| "forInEntries _ = []"






section \<open>Model metadata\<close>

text \<open>
  The model class lives outside the two source files; the utilities read three things
  from it. \<open>rawAttributes\<close> gives what the lookup \<open>Model.rawAttributes[key]\<close> yields
  (\<open>None\<close> for \<open>undefined\<close>); of an attribute the code reads \<open>field\<close>, \<open>fieldName\<close>
  (either may be \<open>undefined\<close>) and whether \<open>type\<close> is an instance of \<open>DataTypes.HSTORE\<close>
  or of \<open>DataTypes.JSON\<close>. \<open>virtualAttributes\<close> is the set \<open>Model._virtualAttributes\<close>.
\<close>

datatype dataType = HSTORE | JSON | OtherType nat

record rawAttribute =
  field :: "string option"
  fieldName :: "string option"
  type :: dataType

record model =
  rawAttributes :: "key \<Rightarrow> rawAttribute option"
  virtualAttributes :: "string set"

section \<open>mapValueFieldNames\<close>







section \<open>mapOptionFieldNames and mapWhereFieldNames\<close>

text \<open>
  The two functions call each other, and \<open>mapWhereFieldNames\<close> recurses on values it reads
  back from the object it is rewriting, so the model counts the depth of calls: fuel
  \<open>n\<close> allows \<open>n\<close> nested calls. A call outside what is modelled gives \<open>Unmodelled\<close>:
  \<open>mapWhereFieldNames\<close> on a value whose clone is an array, a non-empty string or an
  opaque object (the repository passes it plain objects).
\<close>

datatype 'a outcome = Returns 'a | OutOfFuel | Unmodelled

fun bind_outcome :: "'a outcome \<Rightarrow> ('a \<Rightarrow> 'b outcome) \<Rightarrow> 'b outcome" where
  "bind_outcome (Returns x) f = f x"
| "bind_outcome OutOfFuel f = OutOfFuel"
| "bind_outcome Unmodelled f = Unmodelled"

record finderOptions =
  attributes :: jsval
  whereOpt :: jsval

text \<open>The callback of \<open>options.attributes.map\<close>.\<close>

definition fieldValue :: "string option \<Rightarrow> jsval" where
  "fieldValue f = (case f of None \<Rightarrow> Undefined | Some s \<Rightarrow> Str s)"

fun mapAttribute :: "model \<Rightarrow> jsval \<Rightarrow> jsval" where
  "mapAttribute M (Str attr) =
     (case rawAttributes M (SKey attr) of
        Some ra \<Rightarrow> if Some attr \<noteq> field ra then Arr [fieldValue (field ra), Str attr] else Str attr
      | None \<Rightarrow> Str attr)"
| "mapAttribute M attr = attr"

text \<open>
  \<open>mapOptionFieldNames\<close>, with the function it applies to \<open>options.where\<close> as a
  parameter. Both properties are assigned on the options object that was passed in, which
  is also what is returned; the options may hold any further properties.
\<close>

definition mapOptionFieldNames_with ::
  "(jsval \<Rightarrow> jsval outcome) \<Rightarrow> model \<Rightarrow> 'a finderOptions_scheme
     \<Rightarrow> 'a finderOptions_scheme outcome" where
  "mapOptionFieldNames_with mapWhere M options =
     (let options1 =
        (case attributes options of
           Arr xs \<Rightarrow> options\<lparr>attributes := Arr (map (mapAttribute M) xs)\<rparr>
         | _ \<Rightarrow> options)
      in if truthy (whereOpt options1) \<and> isPlainObject (whereOpt options1)
         then bind_outcome (mapWhere (whereOpt options1))
                (\<lambda>w. Returns (options1\<lparr>whereOpt := w\<rparr>))
         else Returns options1)"

text \<open>The property name a \<open>field\<close> value is converted to when it is used as a key.\<close>

definition fieldKey :: "string option \<Rightarrow> key" where
  "fieldKey f = (case f of None \<Rightarrow> SKey ''undefined'' | Some s \<Rightarrow> SKey s)"

text \<open>First statement of the loop body: move the value to the physical field name.\<close>

definition renameStep :: "model \<Rightarrow> key \<Rightarrow> (key \<times> jsval) list \<Rightarrow> (key \<times> jsval) list" where
  "renameStep M attributeName attrs =
     (case rawAttributes M attributeName of
        None \<Rightarrow> attrs
      | Some ra \<Rightarrow>
          if field ra \<noteq> fieldName ra
          then deleteProp (setProp attrs (fieldKey (field ra)) (getProp attrs attributeName))
                 attributeName
          else attrs)"

definition isHstoreOrJson :: "model \<Rightarrow> key \<Rightarrow> bool" where
  "isHstoreOrJson M attributeName =
     (case rawAttributes M attributeName of
        None \<Rightarrow> False
      | Some ra \<Rightarrow> type ra = HSTORE \<or> type ra = JSON)"

text \<open>Second statement: recurse into a plain-object value through \<open>mapOptionFieldNames\<close>.\<close>

definition recurseStep ::
  "(jsval \<Rightarrow> jsval outcome) \<Rightarrow> model \<Rightarrow> key \<Rightarrow> (key \<times> jsval) list
     \<Rightarrow> (key \<times> jsval) list outcome" where
  "recurseStep mapWhere M attributeName attrs =
     (if isPlainObject (getProp attrs attributeName) \<and> \<not> isHstoreOrJson M attributeName
      then bind_outcome
             (mapOptionFieldNames_with mapWhere M
                \<lparr>attributes = Undefined, whereOpt = getProp attrs attributeName\<rparr>)
             (\<lambda>opts. Returns (setProp attrs attributeName (whereOpt opts)))
      else Returns attrs)"

text \<open>
  Third statement: when the value is an array, the loop runs \<open>i\<close> from \<open>0\<close> while
  \<open>i < attributes.length\<close>, reads \<open>attributes[i]\<close> and, when that is a plain object,
  stores its rewriting at index \<open>i\<close> of the array. Both the bound and the value read are
  properties of the where-object itself, not of the array. \<open>loopCount\<close> is how often
  such a loop runs for a given bound: the comparison converts the bound to a number; an
  absent property gives \<open>NaN\<close> and no iteration. The model converts numbers, booleans and
  strings of decimal digits, and takes any other bound as \<open>NaN\<close>. The bound is read
  once: the body assigns into the array only.
\<close>

definition isDigit :: "char \<Rightarrow> bool" where
  "isDigit c = (48 \<le> char_code c \<and> char_code c \<le> 57)"

definition parseDigits :: "string \<Rightarrow> nat" where
  "parseDigits s = foldl (\<lambda>acc c. 10 * acc + (char_code c - 48)) 0 s"

fun loopCount :: "jsval \<Rightarrow> nat" where
  "loopCount (Num n) = nat n"
| "loopCount (Bool b) = (if b then 1 else 0)"
| "loopCount (Str s) = (if s \<noteq> [] \<and> list_all isDigit s then parseDigits s else 0)"
| "loopCount _ = 0"

text \<open>\<open>array[i] = v\<close>: beyond the end the array grows, the gap reading \<open>undefined\<close>.\<close>

definition arraySet :: "jsval list \<Rightarrow> nat \<Rightarrow> jsval \<Rightarrow> jsval list" where
  "arraySet xs i v =
     (if i < length xs then xs[i := v]
      else xs @ replicate (i - length xs) Undefined @ [v])"

definition arrayBody ::
  "(jsval \<Rightarrow> jsval outcome) \<Rightarrow> key \<Rightarrow> nat \<Rightarrow> (key \<times> jsval) list
     \<Rightarrow> (key \<times> jsval) list outcome" where
  "arrayBody mapWhere attributeName i attrs =
     (let wh = getProp attrs (SKey (show_nat i))
      in if isPlainObject wh
         then bind_outcome (mapWhere wh)
                (\<lambda>w. Returns
                   (case getProp attrs attributeName of
                      Arr xs \<Rightarrow> setProp attrs attributeName (Arr (arraySet xs i w))
                    | _ \<Rightarrow> attrs))
         else Returns attrs)"

fun arrayLoop ::
  "(jsval \<Rightarrow> jsval outcome) \<Rightarrow> key \<Rightarrow> nat list \<Rightarrow> (key \<times> jsval) list
     \<Rightarrow> (key \<times> jsval) list outcome" where
  "arrayLoop mapWhere attributeName [] attrs = Returns attrs"
| "arrayLoop mapWhere attributeName (i # is) attrs =
     bind_outcome (arrayBody mapWhere attributeName i attrs)
       (arrayLoop mapWhere attributeName is)"

definition arrayStep ::
  "(jsval \<Rightarrow> jsval outcome) \<Rightarrow> key \<Rightarrow> (key \<times> jsval) list \<Rightarrow> (key \<times> jsval) list outcome" where
  "arrayStep mapWhere attributeName attrs =
     (if isArray (getProp attrs attributeName)
      then arrayLoop mapWhere attributeName
             [0 ..< loopCount (getProp attrs (SKey ''length''))] attrs
      else Returns attrs)"

text \<open>The loop over the keys that \<open>getComplexKeys\<close> listed before the first iteration.\<close>

fun whereLoop ::
  "(jsval \<Rightarrow> jsval outcome) \<Rightarrow> model \<Rightarrow> key list \<Rightarrow> (key \<times> jsval) list
     \<Rightarrow> (key \<times> jsval) list outcome" where
  "whereLoop mapWhere M [] attrs = Returns attrs"
| "whereLoop mapWhere M (attributeName # ks) attrs =
     bind_outcome
       (bind_outcome (recurseStep mapWhere M attributeName (renameStep M attributeName attrs))
          (arrayStep mapWhere attributeName))
       (whereLoop mapWhere M ks)"

fun mapWhereFieldNames :: "nat \<Rightarrow> model \<Rightarrow> jsval \<Rightarrow> jsval outcome" where
  "mapWhereFieldNames 0 M attrs = OutOfFuel"
| "mapWhereFieldNames (Suc n) M attrs =
     (if \<not> truthy attrs then Returns attrs
      else (case cloneDeep attrs False of
              Obj kvs \<Rightarrow>
                bind_outcome (whereLoop (mapWhereFieldNames n M) M (getComplexKeys kvs) kvs)
                  (\<lambda>r. Returns (Obj r))
            | Num i \<Rightarrow> Returns (Num i)
            | Bool b \<Rightarrow> Returns (Bool b)
            | _ \<Rightarrow> Unmodelled))"

definition mapOptionFieldNames ::
  "nat \<Rightarrow> 'a finderOptions_scheme \<Rightarrow> model \<Rightarrow> 'a finderOptions_scheme outcome" where
  "mapOptionFieldNames n options M = mapOptionFieldNames_with (mapWhereFieldNames n M) M options"

text \<open>
  How deep plain objects are nested in plain objects: the number of nested calls
  \<open>mapWhereFieldNames\<close> makes on a value. Arrays count nothing, because the function
  never reads an element of an array; a function with a \<open>clone\<close> method counts as what
  the method returns, because \<open>cloneDeep\<close> puts that in its place.
\<close>

fun whereDepth :: "jsval \<Rightarrow> nat" where
  "whereDepth (Obj kvs) = Suc (foldr max (map (\<lambda>(k, v). whereDepth v) kvs) 0)"
| "whereDepth (Func n (Some r)) = whereDepth r"
| "whereDepth _ = 0"

definition depthLe :: "nat \<Rightarrow> (key \<times> jsval) list \<Rightarrow> bool" where
  "depthLe d kvs = list_all (\<lambda>(k, v). whereDepth v \<le> d) kvs"

definition recOk :: "nat \<Rightarrow> (jsval \<Rightarrow> jsval outcome) \<Rightarrow> bool" where
  "recOk d f = (\<forall>v. isPlainObject v \<longrightarrow> whereDepth v \<le> d \<longrightarrow>
      (\<exists>r. f v = Returns r \<and> isPlainObject r \<and> whereDepth r \<le> whereDepth v))"

section \<open>flattenObjectDeep\<close>

text \<open>
  The inner \<open>flattenObject\<close> writes into the one object \<open>flattenedObj\<close>, which the model
  passes along. It visits \<open>Object.keys\<close>: the string keys of a plain object, the indices
  of an array, nothing of an opaque object. The path of a property is built with the test
  \<open>subPath ? ... : key\<close>, which takes an empty \<open>subPath\<close> like an absent one.
\<close>

datatype jsError = TypeError

definition pathToProperty :: "string option \<Rightarrow> string \<Rightarrow> string" where
  "pathToProperty subPath k =
     (case subPath of
        None \<Rightarrow> k
      | Some p \<Rightarrow> if p \<noteq> [] then p @ ''.'' @ k else k)"

fun flattenObject :: "jsval \<Rightarrow> string option \<Rightarrow> (key \<times> jsval) list \<Rightarrow> (key \<times> jsval) list"
  and flattenProps ::
    "(key \<times> jsval) list \<Rightarrow> string option \<Rightarrow> (key \<times> jsval) list \<Rightarrow> (key \<times> jsval) list"
  and flattenElems ::
    "jsval list \<Rightarrow> nat \<Rightarrow> string option \<Rightarrow> (key \<times> jsval) list \<Rightarrow> (key \<times> jsval) list"
  where
  "flattenObject (Obj kvs) subPath flattenedObj = flattenProps kvs subPath flattenedObj"
| "flattenObject (Arr xs) subPath flattenedObj = flattenElems xs 0 subPath flattenedObj"
| "flattenObject v subPath flattenedObj = flattenedObj"
| "flattenProps [] subPath flattenedObj = flattenedObj"
| "flattenProps ((k, v) # kvs) subPath flattenedObj =
     flattenProps kvs subPath
       (case k of
          SKey s \<Rightarrow>
            (if typeofObject v \<and> v \<noteq> Null
             then flattenObject v (Some (pathToProperty subPath s)) flattenedObj
             else setProp flattenedObj (SKey (pathToProperty subPath s)) v)
        | _ \<Rightarrow> flattenedObj)"
| "flattenElems [] i subPath flattenedObj = flattenedObj"
| "flattenElems (v # xs) i subPath flattenedObj =
     flattenElems xs (Suc i) subPath
       (if typeofObject v \<and> v \<noteq> Null
        then flattenObject v (Some (pathToProperty subPath (show_nat i))) flattenedObj
        else setProp flattenedObj (SKey (pathToProperty subPath (show_nat i))) v)"

definition flattenObjectDeep :: "jsval \<Rightarrow> jsval" where
  "flattenObjectDeep v = (if \<not> isPlainObject v then v else Obj (flattenObject v None []))"

section \<open>getComplexKeys on any value\<close>

text \<open>
  \<open>Object.getOwnPropertySymbols\<close> and \<open>Object.keys\<close> throw a \<open>TypeError\<close> on \<open>null\<close> and
  \<open>undefined\<close>; on an array and on a string they list the indices.
\<close>

fun getComplexKeysOf :: "jsval \<Rightarrow> jsError + key list" where
  "getComplexKeysOf Undefined = Inl TypeError"
| "getComplexKeysOf Null = Inl TypeError"
| "getComplexKeysOf (Obj kvs) = Inr (getComplexKeys kvs)"
| "getComplexKeysOf (Arr xs) = Inr (map (\<lambda>i. SKey (show_nat i)) [0 ..< length xs])"
| "getComplexKeysOf (Str s) = Inr (map (\<lambda>i. SKey (show_nat i)) [0 ..< length s])"
| "getComplexKeysOf v = Inr []"

section \<open>A sample model\<close>

text \<open>
  A model with an attribute \<open>firstName\<close> stored in column \<open>first_name\<close>, an attribute
  \<open>id\<close> stored under its own name, and a JSON attribute \<open>meta\<close>.
\<close>

definition userModel :: model where
  "userModel =
     \<lparr>rawAttributes = (\<lambda>k.
        if k = SKey ''firstName''
        then Some \<lparr>field = Some ''first_name'', fieldName = Some ''firstName'', type = OtherType 0\<rparr>
        else if k = SKey ''id''
        then Some \<lparr>field = Some ''id'', fieldName = Some ''id'', type = OtherType 0\<rparr>
        else if k = SKey ''meta''
        then Some \<lparr>field = Some ''meta'', fieldName = Some ''meta'', type = JSON\<rparr>
        else None),
      virtualAttributes = {}\<rparr>"

section \<open>Vocabulary for the key-by-key behaviour of mapWhereFieldNames\<close>

text \<open>
  A key is renamed when it has a raw attribute whose \<open>field\<close> differs from its
  \<open>fieldName\<close>; its target is the key made from \<open>field\<close>. The keys of a where-object
  do not collide when no renamed key has a target that is itself a visited key, and no two
  renamed keys have the same target.
\<close>

definition renamed :: "model \<Rightarrow> key \<Rightarrow> bool" where
  "renamed M k = (case rawAttributes M k of None \<Rightarrow> False | Some ra \<Rightarrow> field ra \<noteq> fieldName ra)"

definition target :: "model \<Rightarrow> key \<Rightarrow> key" where
  "target M k = (case rawAttributes M k of None \<Rightarrow> k | Some ra \<Rightarrow> fieldKey (field ra))"

definition noCollision :: "model \<Rightarrow> key list \<Rightarrow> bool" where
  "noCollision M ks =
     list_all (\<lambda>k. renamed M k \<longrightarrow>
        target M k \<notin> set ks
        \<and> list_all (\<lambda>k'. renamed M k' \<and> target M k' = target M k \<longrightarrow> k' = k) ks) ks"

section \<open>merge\<close>

text \<open>
  \<open>merge\<close> starts from an empty object without prototype and visits every argument with
  lodash's \<open>forOwn\<close>: the own enumerable string-keyed properties, which in this model
  are the properties \<open>forIn\<close> visits. It calls itself on the value already stored and
  the new value when both are plain objects, so the model counts the depth of calls as
  for \<open>mapWhereFieldNames\<close>.
\<close>

definition forOwnEntries :: "jsval \<Rightarrow> (string \<times> jsval) list" where
  "forOwnEntries obj = forInEntries obj"

fun elems :: "jsval \<Rightarrow> jsval list" where
  "elems (Arr xs) = xs"
| "elems _ = []"

definition mergeEntry ::
  "(jsval list \<Rightarrow> jsval outcome) \<Rightarrow> (key \<times> jsval) list \<Rightarrow> string \<Rightarrow> jsval
     \<Rightarrow> (key \<times> jsval) list outcome" where
  "mergeEntry rec result k val =
     (if val = Undefined then Returns result
      else if \<not> truthy (getProp result (SKey k)) then Returns (setProp result (SKey k) val)
      else if isPlainObject val \<and> isPlainObject (getProp result (SKey k))
      then bind_outcome (rec [getProp result (SKey k), val])
             (\<lambda>m. Returns (setProp result (SKey k) m))
      else if isArray val \<and> isArray (getProp result (SKey k))
      then Returns (setProp result (SKey k) (Arr (elems val @ elems (getProp result (SKey k)))))
      else Returns (setProp result (SKey k) val))"

fun mergeEntries ::
  "(jsval list \<Rightarrow> jsval outcome) \<Rightarrow> (key \<times> jsval) list \<Rightarrow> (string \<times> jsval) list
     \<Rightarrow> (key \<times> jsval) list outcome" where
  "mergeEntries rec result [] = Returns result"
| "mergeEntries rec result ((k, val) # es) =
     bind_outcome (mergeEntry rec result k val) (\<lambda>result'. mergeEntries rec result' es)"

fun mergeArgs ::
  "(jsval list \<Rightarrow> jsval outcome) \<Rightarrow> (key \<times> jsval) list \<Rightarrow> jsval list
     \<Rightarrow> (key \<times> jsval) list outcome" where
  "mergeArgs rec result [] = Returns result"
| "mergeArgs rec result (obj # args) =
     bind_outcome (mergeEntries rec result (forOwnEntries obj))
       (\<lambda>result'. mergeArgs rec result' args)"

fun merge :: "nat \<Rightarrow> jsval list \<Rightarrow> jsval outcome" where
  "merge 0 args = OutOfFuel"
| "merge (Suc n) args = bind_outcome (mergeArgs (merge n) [] args) (\<lambda>result. Returns (Obj result))"

section \<open>mergeDefaults\<close>

text \<open>
  \<open>mergeDefaults\<close> is lodash's \<open>mergeWith\<close> with a customizer. \<open>mergeWith\<close> is not part
  of the repository; the model takes from its documentation that it visits the own and
  inherited enumerable string-keyed properties of the source, asks the customizer for the
  value to assign to the same key of the destination object, falls back to its own deep
  merge where the customizer returns \<open>undefined\<close>, and returns the destination object,
  which it has mutated. The deep merge of lodash is a parameter \<open>lodashMerge\<close> (with
  \<open>None\<close> for no assignment), and so is \<open>baseIsNative\<close>.
\<close>

fun isFunction :: "jsval \<Rightarrow> bool" where
  "isFunction (Func n c) = True"
| "isFunction _ = False"

definition mergeDefaults_customizer :: "(jsval \<Rightarrow> bool) \<Rightarrow> jsval \<Rightarrow> jsval \<Rightarrow> jsval" where
  "mergeDefaults_customizer baseIsNative objectValue sourceValue =
     (if \<not> isPlainObject objectValue \<and> objectValue \<noteq> Undefined
      then (if isFunction objectValue \<and> baseIsNative objectValue
            then (if truthy sourceValue then sourceValue else objectValue)
            else objectValue)
      else Undefined)"

definition assignMerged ::
  "(jsval \<Rightarrow> jsval \<Rightarrow> jsval option) \<Rightarrow> (jsval \<Rightarrow> jsval \<Rightarrow> jsval)
     \<Rightarrow> (key \<times> jsval) list \<Rightarrow> string \<Rightarrow> jsval \<Rightarrow> (key \<times> jsval) list" where
  "assignMerged lodashMerge customizer obj k srcValue =
     (let newValue = customizer (getProp obj (SKey k)) srcValue
      in if newValue \<noteq> Undefined then setProp obj (SKey k) newValue
         else (case lodashMerge (getProp obj (SKey k)) srcValue of
                 None \<Rightarrow> obj
               | Some v \<Rightarrow> setProp obj (SKey k) v))"

definition mergeWith ::
  "(jsval \<Rightarrow> jsval \<Rightarrow> jsval option) \<Rightarrow> (jsval \<Rightarrow> jsval \<Rightarrow> jsval)
     \<Rightarrow> (key \<times> jsval) list \<Rightarrow> jsval \<Rightarrow> (key \<times> jsval) list" where
  "mergeWith lodashMerge customizer object source =
     foldl (\<lambda>obj (k, srcValue). assignMerged lodashMerge customizer obj k srcValue)
       object (forInEntries source)"

definition mergeDefaults ::
  "(jsval \<Rightarrow> bool) \<Rightarrow> (jsval \<Rightarrow> jsval \<Rightarrow> jsval option)
     \<Rightarrow> (key \<times> jsval) list \<Rightarrow> jsval \<Rightarrow> (key \<times> jsval) list" where
  "mergeDefaults baseIsNative lodashMerge a b =
     mergeWith lodashMerge (mergeDefaults_customizer baseIsNative) a b"

text \<open>A value holds a clonable function when \<open>cloneDeep\<close> would replace part of it.\<close>

fun hasClone :: "jsval \<Rightarrow> bool" where
  "hasClone (Arr xs) = list_ex hasClone xs"
| "hasClone (Obj kvs) = list_ex (\<lambda>(k, v). hasClone v) kvs"
| "hasClone (Func n (Some r)) = (r \<noteq> Undefined)"
| "hasClone v = False"

definition mergeRecOk :: "nat \<Rightarrow> (jsval list \<Rightarrow> jsval outcome) \<Rightarrow> bool" where
  "mergeRecOk d rec =
     (\<forall>x y. isPlainObject x \<and> isPlainObject y \<and> whereDepth x \<le> d \<and> whereDepth y \<le> d \<longrightarrow>
        (\<exists>r. rec [x, y] = Returns r \<and> whereDepth r \<le> d))"

definition entriesLe :: "nat \<Rightarrow> jsval \<Rightarrow> bool" where
  "entriesLe d obj = list_all (\<lambda>(k, v). whereDepth v \<le> d) (forOwnEntries obj)"

definition stringKeyed :: "(key \<times> jsval) list \<Rightarrow> bool" where
  "stringKeyed kvs = list_all (\<lambda>(k, v). \<not> isSymbol k) kvs"

section \<open>An explicit store, for what the utilities write\<close>

text \<open>
  Whether a utility leaves the objects of its caller alone cannot be read off a function
  from values to values, so the utilities are given a second time, over a store. A store
  is the list of all objects created so far; the address of an object is its position; an
  object literal or a new array appends a cell; an assignment to a property replaces the
  cell at the address of the object. Values are the primitives, symbols, functions and
  references to cells. An opaque cell is an object that is not plain; a function value
  records whether it has a \<open>clone\<close> method, whose code is not part of the repository.
\<close>

datatype sval =
    SUndefined
  | SNull
  | SBool bool
  | SNum int
  | SStr string
  | SSym key
  | SRef nat
  | SFunc nat bool

datatype cell = CObj "(key \<times> sval) list" | CArr "sval list" | COpaque nat

type_synonym store = "cell list"

definition alloc :: "store \<Rightarrow> cell \<Rightarrow> nat \<times> store" where
  "alloc s c = (length s, s @ [c])"

definition cellAt :: "store \<Rightarrow> nat \<Rightarrow> cell option" where
  "cellAt s a = (if a < length s then Some (s ! a) else None)"





definition deletePropS :: "(key \<times> sval) list \<Rightarrow> key \<Rightarrow> (key \<times> sval) list" where
  "deletePropS kvs k = filter (\<lambda>p. fst p \<noteq> k) kvs"



definition removeProp :: "store \<Rightarrow> nat \<Rightarrow> key \<Rightarrow> store" where
  "removeProp s a k =
     (case cellAt s a of Some (CObj kvs) \<Rightarrow> s[a := CObj (deletePropS kvs k)] | _ \<Rightarrow> s)"







subsection \<open>cloneDeep over the store\<close>



subsection \<open>mapOptionFieldNames and mapWhereFieldNames over the store\<close>












text \<open>
  Vocabulary for the statements. A store \<open>s'\<close> extends \<open>s\<close> when every cell of \<open>s\<close> is
  still there, unchanged, at its address. It extends \<open>s\<close> except at \<open>a\<close> when that holds
  for every address but \<open>a\<close>. A value is new or opaque for \<open>s\<close> when it does not refer to
  an array or plain object of \<open>s\<close>.
\<close>

definition extends :: "store \<Rightarrow> store \<Rightarrow> bool" where
  "extends s s' = (take (length s) s' = s)"





subsection \<open>The utilities that build a new object, over the store\<close>


















section \<open>defaults and mapFinderOptions\<close>







lemma char_code_inj: "char_code x = char_code y \<Longrightarrow> x = y"
  by (simp add: char_code_def)

lemma str_lt_asym: "str_lt x y \<Longrightarrow> \<not> str_lt y x"
  by (induction x y rule: str_lt.induct) (auto split: if_splits)

lemma str_lt_total: "x \<noteq> y \<Longrightarrow> str_lt x y \<or> str_lt y x"
proof (induction x y rule: str_lt.induct)
  case (4 x xs y ys)
  then show ?case
    by (cases "char_code x < char_code y"; cases "char_code y < char_code x")
       (auto dest: char_code_inj)
qed auto

text \<open>
  Claim C8. For two table names whose lower-cased forms differ, \<open>combineTableNames\<close> gives
  the same result in both argument orders: the concatenation that puts first the name
  whose lower-cased form is the smaller one.
\<close>

theorem combineTableNames_commutes:
  assumes "toLowerCase a \<noteq> toLowerCase b"
  shows "combineTableNames a b = combineTableNames b a
       \<and> combineTableNames a b =
           (if str_lt (toLowerCase a) (toLowerCase b) then a @ b else b @ a)"
proof (cases "str_lt (toLowerCase a) (toLowerCase b)")
  case True
  then have "\<not> str_lt (toLowerCase b) (toLowerCase a)"
    by (rule str_lt_asym)
  with True show ?thesis
    by (simp add: combineTableNames_def)
next
  case False
  with assms have "str_lt (toLowerCase b) (toLowerCase a)"
    using str_lt_total by blast
  with False show ?thesis
    by (simp add: combineTableNames_def)
qed

theorem combineTableNames_commutes_witness:
  "toLowerCase ''User'' \<noteq> toLowerCase ''project''
   \<and> combineTableNames ''User'' ''project'' = ''projectUser''
   \<and> combineTableNames ''project'' ''User'' = ''projectUser''"
proof -
  have h: "toLowerCase ''User'' \<noteq> toLowerCase ''project''"
    by (simp add: toLowerCase_def)
  have v: "combineTableNames ''User'' ''project'' = ''projectUser''"
    by (simp add: combineTableNames_def toLowerCase_def lower_char_def char_code_def)
  from combineTableNames_commutes [OF h] h v show ?thesis
    by simp
qed










section \<open>Properties of mapValueFieldNames\<close>

lemma getProp_setProp: "getProp (setProp h k v) k' = (if k' = k then v else getProp h k')"
  by (induction h) auto

lemma keys_setProp:
  "map fst (setProp h k v) = (if k \<in> set (map fst h) then map fst h else map fst h @ [k])"
  by (induction h) (auto simp: rev_image_eqI)

lemma hasProp_setProp: "hasProp (setProp h k v) k' = (k' = k \<or> hasProp h k')"
  unfolding hasProp_def keys_setProp by auto









section \<open>Enough fuel: mapWhereFieldNames returns\<close>

lemma foldr_max_le: "foldr max xs 0 \<le> (d::nat) \<longleftrightarrow> (\<forall>x \<in> set xs. x \<le> d)"
  by (induction xs) auto

lemma whereDepth_Obj_le: "whereDepth (Obj kvs) \<le> Suc d \<longleftrightarrow> depthLe d kvs"
  by (auto simp: foldr_max_le depthLe_def list_all_iff)

lemma depthLe_self: "depthLe (whereDepth (Obj kvs) - 1) kvs"
  using whereDepth_Obj_le [of kvs "whereDepth (Obj kvs) - 1"] by simp

lemma depthLe_getProp: "depthLe d attrs \<Longrightarrow> whereDepth (getProp attrs k) \<le> d"
  by (induction attrs) (auto simp: depthLe_def)

lemma depthLe_setProp: "depthLe d attrs \<Longrightarrow> whereDepth v \<le> d \<Longrightarrow> depthLe d (setProp attrs k v)"
  by (induction attrs) (auto simp: depthLe_def)

lemma depthLe_deleteProp: "depthLe d attrs \<Longrightarrow> depthLe d (deleteProp attrs k)"
  by (auto simp: depthLe_def deleteProp_def list_all_iff)

lemma depthLe_renameStep: "depthLe d attrs \<Longrightarrow> depthLe d (renameStep M k attrs)"
  by (auto simp: renameStep_def depthLe_deleteProp depthLe_setProp depthLe_getProp
      split: option.splits)

lemma whereDepth_cloneValue: "whereDepth (cloneValue False v) \<le> whereDepth v"
proof (induction v rule: whereDepth.induct)
  case (1 kvs)
  have "depthLe (whereDepth (Obj kvs) - 1) (map (\<lambda>(k, v). (k, cloneValue False v)) kvs)"
    using 1 depthLe_self [of kvs]
    by (fastforce simp: depthLe_def list_all_iff)
  then show ?case
    using whereDepth_Obj_le [of "map (\<lambda>(k, v). (k, cloneValue False v)) kvs" "whereDepth (Obj kvs) - 1"]
    by simp
next
  case (2 n r)
  then show ?case by simp
qed simp_all

lemma recOkD:
  "recOk d f \<Longrightarrow> isPlainObject v \<Longrightarrow> whereDepth v \<le> d \<Longrightarrow>
     \<exists>r. f v = Returns r \<and> isPlainObject r \<and> whereDepth r \<le> whereDepth v"
  by (simp add: recOk_def)

lemma truthy_plain: "isPlainObject v \<Longrightarrow> truthy v"
  by (cases v) auto

lemma recurseStep_total:
  assumes "recOk d f" "depthLe d attrs"
  shows "\<exists>a. recurseStep f M k attrs = Returns a \<and> depthLe d a"
proof (cases "isPlainObject (getProp attrs k) \<and> \<not> isHstoreOrJson M k")
  case True
  have "whereDepth (getProp attrs k) \<le> d"
    using assms(2) by (rule depthLe_getProp)
  with True assms(1) obtain r where r: "f (getProp attrs k) = Returns r"
      "whereDepth r \<le> whereDepth (getProp attrs k)"
    using recOkD by blast
  with \<open>whereDepth (getProp attrs k) \<le> d\<close> have "whereDepth r \<le> d" by simp
  then have "depthLe d (setProp attrs k r)"
    using assms(2) depthLe_setProp by blast
  with True r show ?thesis
    by (simp add: recurseStep_def mapOptionFieldNames_with_def truthy_plain)
next
  case False
  with assms(2) show ?thesis
    by (auto simp: recurseStep_def)
qed

lemma arrayBody_total:
  assumes "recOk d f" "depthLe d attrs"
  shows "\<exists>a. arrayBody f k i attrs = Returns a \<and> depthLe d a"
proof (cases "isPlainObject (getProp attrs (SKey (show_nat i)))")
  case True
  have "whereDepth (getProp attrs (SKey (show_nat i))) \<le> d"
    using assms(2) by (rule depthLe_getProp)
  with True assms(1) obtain r where r: "f (getProp attrs (SKey (show_nat i))) = Returns r"
    using recOkD by blast
  have "depthLe d (setProp attrs k (Arr ys))" for ys
    using assms(2) by (simp add: depthLe_setProp)
  with True r assms(2) show ?thesis
    by (auto simp: arrayBody_def Let_def split: jsval.splits)
next
  case False
  with assms(2) show ?thesis
    by (simp add: arrayBody_def)
qed

lemma arrayLoop_total:
  assumes "recOk d f" "depthLe d attrs"
  shows "\<exists>a. arrayLoop f k is attrs = Returns a \<and> depthLe d a"
  using assms(2)
proof (induction "is" arbitrary: attrs)
  case Nil
  then show ?case by simp
next
  case (Cons i "is")
  obtain a where a: "arrayBody f k i attrs = Returns a" "depthLe d a"
    using arrayBody_total [OF assms(1) Cons.prems] by blast
  with Cons.IH [of a] show ?case by simp
qed

lemma arrayStep_total:
  assumes "recOk d f" "depthLe d attrs"
  shows "\<exists>a. arrayStep f k attrs = Returns a \<and> depthLe d a"
  using arrayLoop_total [OF assms] assms(2) by (simp add: arrayStep_def)

lemma whereLoop_total:
  assumes "recOk d f" "depthLe d attrs"
  shows "\<exists>a. whereLoop f M ks attrs = Returns a \<and> depthLe d a"
  using assms(2)
proof (induction ks arbitrary: attrs)
  case Nil
  then show ?case by simp
next
  case (Cons k ks)
  have "depthLe d (renameStep M k attrs)"
    using Cons.prems by (rule depthLe_renameStep)
  then obtain a1 where a1: "recurseStep f M k (renameStep M k attrs) = Returns a1" "depthLe d a1"
    using recurseStep_total [OF assms(1)] by blast
  then obtain a2 where a2: "arrayStep f k a1 = Returns a2" "depthLe d a2"
    using arrayStep_total [OF assms(1)] by blast
  with a1 Cons.IH [of a2] show ?case by simp
qed

lemma mapWhereFieldNames_recOk: "recOk n (mapWhereFieldNames n M)"
proof (induction n)
  case 0
  show ?case
    unfolding recOk_def
  proof (intro allI impI)
    fix v assume "isPlainObject v" "whereDepth v \<le> 0"
    then show "\<exists>r. mapWhereFieldNames 0 M v = Returns r \<and> isPlainObject r \<and> whereDepth r \<le> whereDepth v"
      by (cases v) auto
  qed
next
  case (Suc n)
  show ?case
    unfolding recOk_def
  proof (intro allI impI)
    fix v assume pl: "isPlainObject v" and d: "whereDepth v \<le> Suc n"
    then obtain kvs where v: "v = Obj kvs" by (cases v) auto
    let ?c = "map (\<lambda>(k, v). (k, cloneValue False v)) kvs"
    have c: "cloneDeep v False = Obj ?c"
      by (simp add: v cloneDeep_def)
    have "whereDepth (Obj ?c) \<le> whereDepth v"
      using whereDepth_cloneValue [of v] by (simp add: v)
    have dc: "depthLe (whereDepth v - 1) ?c"
      using \<open>whereDepth (Obj ?c) \<le> whereDepth v\<close> whereDepth_Obj_le [of ?c "whereDepth v - 1"]
      by (simp add: v)
    have "recOk (whereDepth v - 1) (mapWhereFieldNames n M)"
      using Suc d by (auto simp: recOk_def)
    then obtain a where a: "whereLoop (mapWhereFieldNames n M) M (getComplexKeys ?c) ?c = Returns a"
        "depthLe (whereDepth v - 1) a"
      using whereLoop_total [OF _ dc] by blast
    have "whereDepth (Obj a) \<le> whereDepth v"
      using a(2) whereDepth_Obj_le [of a "whereDepth v - 1"] by (simp add: v)
    with a c show "\<exists>r. mapWhereFieldNames (Suc n) M v = Returns r \<and> isPlainObject r \<and> whereDepth r \<le> whereDepth v"
      by (simp add: v)
  qed
qed

lemma mapWhere_plain_returns:
  assumes "isPlainObject v" "whereDepth v \<le> n"
  shows "\<exists>r. mapWhereFieldNames n M v = Returns r \<and> isPlainObject r"
  using mapWhereFieldNames_recOk [of n M] assms by (auto simp: recOk_def)

section \<open>Properties of mapOptionFieldNames\<close>

lemma mapAttribute_cases:
  "mapAttribute M x =
     (case x of
        Str attr \<Rightarrow>
          (case rawAttributes M (SKey attr) of
             Some ra \<Rightarrow> if Some attr \<noteq> field ra then Arr [fieldValue (field ra), Str attr] else Str attr
           | None \<Rightarrow> Str attr)
      | other \<Rightarrow> other)"
  by (cases x) simp_all

lemma mapOptionFieldNames_result:
  assumes "whereDepth (whereOpt options) \<le> n"
  shows "\<exists>r. mapOptionFieldNames n options M = Returns r
         \<and> attributes r =
             (case attributes options of
                Arr xs \<Rightarrow> Arr (map (mapAttribute M) xs) | other \<Rightarrow> other)
         \<and> finderOptions.more r = finderOptions.more options
         \<and> (\<not> isPlainObject (whereOpt options) \<longrightarrow> whereOpt r = whereOpt options)"
proof (cases "isPlainObject (whereOpt options)")
  case True
  then obtain w where "mapWhereFieldNames n M (whereOpt options) = Returns w"
    using mapWhere_plain_returns assms by blast
  with True show ?thesis
    by (cases "attributes options")
       (simp_all add: mapOptionFieldNames_def mapOptionFieldNames_with_def truthy_plain)
next
  case False
  then show ?thesis
    by (cases "attributes options")
       (simp_all add: mapOptionFieldNames_def mapOptionFieldNames_with_def)
qed

text \<open>
  Claim C4. When \<open>options.attributes\<close> is an array, \<open>mapOptionFieldNames\<close> (given fuel for
  the depth of \<open>options.where\<close>) returns options whose \<open>attributes\<close> is an array of the
  same length; an entry that is a string naming a raw attribute whose \<open>field\<close> differs
  from the string becomes the pair \<open>[field, attr]\<close>; every other entry (not a string, no
  raw attribute, or \<open>field\<close> equal to the name) is unchanged.
\<close>

theorem mapOptionFieldNames_attributes:
  assumes "attributes options = Arr xs" and "whereDepth (whereOpt options) \<le> n"
  shows "\<exists>r ys. mapOptionFieldNames n options M = Returns r \<and> attributes r = Arr ys
           \<and> length ys = length xs
           \<and> (\<forall>i < length xs. ys ! i =
                 (case xs ! i of
                    Str attr \<Rightarrow>
                      (case rawAttributes M (SKey attr) of
                         Some ra \<Rightarrow> if Some attr \<noteq> field ra
                                    then Arr [fieldValue (field ra), Str attr] else Str attr
                       | None \<Rightarrow> Str attr)
                  | other \<Rightarrow> other))"
proof -
  let ?ys = "map (mapAttribute M) xs"
  obtain r where "mapOptionFieldNames n options M = Returns r" "attributes r = Arr ?ys"
    using mapOptionFieldNames_result [OF assms(2), of M] assms(1) by auto
  then show ?thesis
    by (simp add: mapAttribute_cases)
qed

theorem mapOptionFieldNames_attributes_witness:
  "attributes \<lparr>attributes = Arr [Str ''firstName'', Str ''id'', Num 3, Str ''zz''],
                whereOpt = Undefined\<rparr>
     = Arr [Str ''firstName'', Str ''id'', Num 3, Str ''zz'']
   \<and> whereDepth (whereOpt \<lparr>attributes = Arr [Str ''firstName'', Str ''id'', Num 3, Str ''zz''],
                whereOpt = Undefined\<rparr>) \<le> 0
   \<and> mapOptionFieldNames 0
        \<lparr>attributes = Arr [Str ''firstName'', Str ''id'', Num 3, Str ''zz''],
         whereOpt = Undefined\<rparr> userModel
     = Returns \<lparr>attributes = Arr [Arr [Str ''first_name'', Str ''firstName''], Str ''id'', Num 3,
                                   Str ''zz''],
                whereOpt = Undefined\<rparr>"
proof -
  let ?o = "\<lparr>attributes = Arr [Str ''firstName'', Str ''id'', Num 3, Str ''zz''],
             whereOpt = Undefined\<rparr>"
  have h1: "attributes ?o = Arr [Str ''firstName'', Str ''id'', Num 3, Str ''zz'']" by simp
  have h2: "whereDepth (whereOpt ?o) \<le> 0" by simp
  from mapOptionFieldNames_attributes [OF h1 h2, of userModel] h1 h2 show ?thesis
    by (simp add: mapOptionFieldNames_def mapOptionFieldNames_with_def userModel_def
          fieldValue_def)
qed


section \<open>Properties of mapWhereFieldNames\<close>

text \<open>
  Claim C2 fails on the code. A where-clause that holds an array of conditions under an
  operator comes back with the conditions as they were: the loop over the array is bounded
  by \<open>attributes.length\<close> and reads \<open>attributes[i]\<close>, properties of the where-object,
  where it means the array. The same condition as a plain-object value is rewritten.
\<close>

theorem mapWhereFieldNames_array_not_rewritten:
  "mapWhereFieldNames 3 userModel (Obj [(OpSym 0, Arr [Obj [(SKey ''firstName'', Num 1)]])])
     = Returns (Obj [(OpSym 0, Arr [Obj [(SKey ''firstName'', Num 1)]])])
   \<and> mapWhereFieldNames 3 userModel (Obj [(OpSym 0, Obj [(SKey ''firstName'', Num 1)])])
     = Returns (Obj [(OpSym 0, Obj [(SKey ''first_name'', Num 1)])])"
  by (simp add: numeral_3_eq_3 cloneDeep_def getComplexKeys_def getOperators_def objectKeys_def
        ownKeys_def renameStep_def recurseStep_def arrayStep_def isHstoreOrJson_def
        mapOptionFieldNames_with_def userModel_def fieldKey_def deleteProp_def)

section \<open>Falsy and malformed input\<close>

text \<open>
  Claim C6, as stated, fails: not every utility returns on every input.
  \<open>getComplexKeys\<close> applied to \<open>null\<close> raises a \<open>TypeError\<close>.
\<close>

theorem getComplexKeys_null_raises:
  "getComplexKeysOf Null = Inl TypeError"
  by simp

text \<open>
  Claim C6, amended. \<open>mapWhereFieldNames\<close> returns a falsy argument as it is,
  \<open>flattenObjectDeep\<close> returns an argument that is not a plain object as it is, and
  \<open>cloneDeep\<close> of a falsy argument is an empty object.
\<close>

theorem falsy_input_returned:
  "(\<not> truthy a \<longrightarrow> mapWhereFieldNames (Suc n) M a = Returns a)
   \<and> (\<not> isPlainObject v \<longrightarrow> flattenObjectDeep v = v)
   \<and> (\<not> truthy w \<longrightarrow> cloneDeep w onlyPlain = Obj [])"
  by (simp add: flattenObjectDeep_def cloneDeep_def)

theorem falsy_input_returned_witness:
  "\<not> truthy Null \<and> mapWhereFieldNames (Suc 0) userModel Null = Returns Null
   \<and> \<not> isPlainObject (Arr [Num 1]) \<and> flattenObjectDeep (Arr [Num 1]) = Arr [Num 1]
   \<and> \<not> truthy (Str []) \<and> cloneDeep (Str []) True = Obj []"
  using falsy_input_returned [of Null 0 userModel "Arr [Num 1]" "Str []" True]
  by simp

section \<open>Properties of flattenObjectDeep\<close>

text \<open>
  Claim C7 fails on the code. The leaf \<open>1\<close> of the first object below is reached by the
  path made of the empty key and the key \<open>a\<close>, whose dot-joined form is \<open>.a\<close>; the
  result holds it under \<open>a\<close>, because the empty \<open>subPath\<close> is taken for an absent one.
  A path that starts with a non-empty key is joined as the claim says.
\<close>

theorem flattenObjectDeep_empty_key:
  "flattenObjectDeep (Obj [(SKey [], Obj [(SKey ''a'', Num 1)])]) = Obj [(SKey ''a'', Num 1)]
   \<and> flattenObjectDeep (Obj [(SKey ''b'', Obj [(SKey ''a'', Num 1)])]) = Obj [(SKey ''b.a'', Num 1)]"
  by (simp add: flattenObjectDeep_def pathToProperty_def)

section \<open>Key by key: what mapWhereFieldNames does to one property\<close>

lemma getProp_deleteProp: "getProp (deleteProp h k) k' = (if k' = k then Undefined else getProp h k')"
  by (induction h) (auto simp: deleteProp_def)

lemma renameStep_eq:
  "renameStep M k attrs =
     (if renamed M k then deleteProp (setProp attrs (target M k) (getProp attrs k)) k else attrs)"
  by (simp add: renameStep_def renamed_def target_def split: option.splits)

lemma renameStep_other:
  "k' \<noteq> k \<Longrightarrow> (renamed M k \<longrightarrow> k' \<noteq> target M k) \<Longrightarrow>
     getProp (renameStep M k attrs) k' = getProp attrs k'"
  by (simp add: renameStep_eq getProp_deleteProp getProp_setProp)

lemma recurseStep_eq:
  "recurseStep f M k attrs =
     (if isPlainObject (getProp attrs k) \<and> \<not> isHstoreOrJson M k
      then bind_outcome (f (getProp attrs k)) (\<lambda>w. Returns (setProp attrs k w))
      else Returns attrs)"
  by (cases "f (getProp attrs k)")
     (simp_all add: recurseStep_def mapOptionFieldNames_with_def Let_def truthy_plain)

lemma recurseStep_other:
  "recurseStep f M k attrs = Returns a \<Longrightarrow> k' \<noteq> k \<Longrightarrow> getProp a k' = getProp attrs k'"
  by (cases "f (getProp attrs k)")
     (auto simp: recurseStep_eq getProp_setProp split: if_splits)

lemma arrayBody_other:
  "arrayBody f k i attrs = Returns a \<Longrightarrow> k' \<noteq> k \<Longrightarrow> getProp a k' = getProp attrs k'"
  by (cases "f (getProp attrs (SKey (show_nat i)))")
     (auto simp: arrayBody_def Let_def getProp_setProp split: if_splits jsval.splits)

lemma bind_Returns:
  "bind_outcome x g = Returns y \<Longrightarrow> \<exists>z. x = Returns z \<and> g z = Returns y"
  by (cases x) auto

lemma arrayLoop_other:
  "arrayLoop f k is attrs = Returns a \<Longrightarrow> k' \<noteq> k \<Longrightarrow> getProp a k' = getProp attrs k'"
proof (induction "is" arbitrary: attrs)
  case Nil
  then show ?case by simp
next
  case (Cons i "is")
  from Cons.prems(1) obtain z where z: "arrayBody f k i attrs = Returns z"
      "arrayLoop f k is z = Returns a"
    by (auto dest: bind_Returns)
  with Cons.IH [of z] Cons.prems(2) arrayBody_other [OF z(1)] show ?case by simp
qed

lemma arrayStep_other:
  "arrayStep f k attrs = Returns a \<Longrightarrow> k' \<noteq> k \<Longrightarrow> getProp a k' = getProp attrs k'"
  by (auto simp: arrayStep_def arrayLoop_other split: if_splits)

lemma whereLoop_other:
  "whereLoop f M ks attrs = Returns a \<Longrightarrow> k' \<notin> set ks \<Longrightarrow>
     (\<forall>k \<in> set ks. renamed M k \<longrightarrow> target M k \<noteq> k') \<Longrightarrow> getProp a k' = getProp attrs k'"
proof (induction ks arbitrary: attrs)
  case Nil
  then show ?case by simp
next
  case (Cons k ks)
  from Cons.prems(1) obtain z where z:
      "bind_outcome (recurseStep f M k (renameStep M k attrs)) (arrayStep f k) = Returns z"
      "whereLoop f M ks z = Returns a"
    by (auto dest: bind_Returns)
  from z(1) obtain y where y: "recurseStep f M k (renameStep M k attrs) = Returns y"
      "arrayStep f k y = Returns z"
    by (auto dest: bind_Returns)
  have ne: "k' \<noteq> k" using Cons.prems(2) by simp
  have "getProp z k' = getProp y k'" using arrayStep_other [OF y(2) ne] .
  also have "\<dots> = getProp (renameStep M k attrs) k'" using recurseStep_other [OF y(1) ne] .
  also have "\<dots> = getProp attrs k'"
    using ne Cons.prems(3) by (intro renameStep_other) auto
  finally have "getProp z k' = getProp attrs k'" .
  moreover have "getProp a k' = getProp z k'"
    using Cons.IH [OF z(2)] Cons.prems by simp
  ultimately show ?case by simp
qed

lemma whereLoop_append:
  "whereLoop f M (xs @ ys) attrs = bind_outcome (whereLoop f M xs attrs) (whereLoop f M ys)"
proof (induction xs arbitrary: attrs)
  case Nil
  then show ?case by simp
next
  case (Cons x xs)
  show ?case
    by (cases "bind_outcome (recurseStep f M x (renameStep M x attrs)) (arrayStep f x)")
       (simp_all add: Cons.IH)
qed

lemma step_renamed:
  assumes "renamed M k" "target M k \<noteq> k"
  shows "bind_outcome (recurseStep f M k (renameStep M k attrs)) (arrayStep f k)
           = Returns (renameStep M k attrs)"
    and "getProp (renameStep M k attrs) (target M k) = getProp attrs k"
proof -
  have u: "getProp (renameStep M k attrs) k = Undefined"
    using assms by (simp add: renameStep_eq getProp_deleteProp)
  then show "bind_outcome (recurseStep f M k (renameStep M k attrs)) (arrayStep f k)
           = Returns (renameStep M k attrs)"
    by (simp add: recurseStep_eq arrayStep_def)
  show "getProp (renameStep M k attrs) (target M k) = getProp attrs k"
    using assms by (simp add: renameStep_eq getProp_deleteProp getProp_setProp)
qed

lemma step_skip:
  assumes "\<not> renamed M k" "isHstoreOrJson M k" "isPlainObject (getProp attrs k)"
  shows "bind_outcome (recurseStep f M k (renameStep M k attrs)) (arrayStep f k) = Returns attrs"
proof -
  have "\<not> isArray (getProp attrs k)"
    using assms(3) by (cases "getProp attrs k") auto
  with assms show ?thesis
    by (simp add: renameStep_eq recurseStep_eq arrayStep_def)
qed

lemma step_recurse:
  assumes "\<not> renamed M k" "\<not> isHstoreOrJson M k" "isPlainObject (getProp attrs k)"
    and "f (getProp attrs k) = Returns w" "isPlainObject w"
  shows "bind_outcome (recurseStep f M k (renameStep M k attrs)) (arrayStep f k)
           = Returns (setProp attrs k w)"
proof -
  have "\<not> isArray w"
    using assms(5) by (cases w) auto
  with assms show ?thesis
    by (simp add: renameStep_eq recurseStep_eq arrayStep_def getProp_setProp)
qed

lemma getProp_clone:
  "getProp (map (\<lambda>(k, v). (k, cloneValue b v)) kvs) k = cloneValue b (getProp kvs k)"
  by (induction kvs) auto

lemma keys_clone: "map fst (map (\<lambda>(k, v). (k, cloneValue b v)) kvs) = map fst kvs"
  by (induction kvs) auto

lemma getComplexKeys_clone:
  "getComplexKeys (map (\<lambda>(k, v). (k, cloneValue b v)) kvs) = getComplexKeys kvs"
  unfolding getComplexKeys_def getOperators_def objectKeys_def ownKeys_def keys_clone ..

lemma distinct_getComplexKeys: "distinct (map fst kvs) \<Longrightarrow> distinct (getComplexKeys kvs)"
  by (auto simp: getComplexKeys_def getOperators_def objectKeys_def ownKeys_def)

lemma isPlainObject_clone: "isPlainObject v \<Longrightarrow> isPlainObject (cloneValue b v)"
  by (cases v) auto

lemma noCollisionD:
  assumes "noCollision M ks" "k \<in> set ks" "renamed M k"
  shows "target M k \<notin> set ks"
    and "k' \<in> set ks \<Longrightarrow> renamed M k' \<Longrightarrow> target M k' = target M k \<Longrightarrow> k' = k"
  using assms by (auto simp: noCollision_def list_all_iff)

lemma hasProp_deleteProp: "hasProp (deleteProp h k) k' = (k' \<noteq> k \<and> hasProp h k')"
  by (auto simp: hasProp_def deleteProp_def)

lemma renameStep_has_other:
  "k' \<noteq> k \<Longrightarrow> (renamed M k \<longrightarrow> k' \<noteq> target M k) \<Longrightarrow>
     hasProp (renameStep M k attrs) k' = hasProp attrs k'"
  by (simp add: renameStep_eq hasProp_deleteProp hasProp_setProp)

lemma recurseStep_has_other:
  "recurseStep f M k attrs = Returns a \<Longrightarrow> k' \<noteq> k \<Longrightarrow> hasProp a k' = hasProp attrs k'"
  by (cases "f (getProp attrs k)")
     (auto simp: recurseStep_eq hasProp_setProp split: if_splits)

lemma arrayBody_has_other:
  "arrayBody f k i attrs = Returns a \<Longrightarrow> k' \<noteq> k \<Longrightarrow> hasProp a k' = hasProp attrs k'"
  by (cases "f (getProp attrs (SKey (show_nat i)))")
     (auto simp: arrayBody_def Let_def hasProp_setProp split: if_splits jsval.splits)

lemma arrayLoop_has_other:
  "arrayLoop f k is attrs = Returns a \<Longrightarrow> k' \<noteq> k \<Longrightarrow> hasProp a k' = hasProp attrs k'"
proof (induction "is" arbitrary: attrs)
  case Nil
  then show ?case by simp
next
  case (Cons i "is")
  from Cons.prems(1) obtain z where z: "arrayBody f k i attrs = Returns z"
      "arrayLoop f k is z = Returns a"
    by (auto dest: bind_Returns)
  with Cons.IH [of z] Cons.prems(2) arrayBody_has_other [OF z(1)] show ?case by simp
qed

lemma arrayStep_has_other:
  "arrayStep f k attrs = Returns a \<Longrightarrow> k' \<noteq> k \<Longrightarrow> hasProp a k' = hasProp attrs k'"
  by (auto simp: arrayStep_def arrayLoop_has_other split: if_splits)

lemma whereLoop_has_other:
  "whereLoop f M ks attrs = Returns a \<Longrightarrow> k' \<notin> set ks \<Longrightarrow>
     (\<forall>k \<in> set ks. renamed M k \<longrightarrow> target M k \<noteq> k') \<Longrightarrow> hasProp a k' = hasProp attrs k'"
proof (induction ks arbitrary: attrs)
  case Nil
  then show ?case by simp
next
  case (Cons k ks)
  from Cons.prems(1) obtain z where z:
      "bind_outcome (recurseStep f M k (renameStep M k attrs)) (arrayStep f k) = Returns z"
      "whereLoop f M ks z = Returns a"
    by (auto dest: bind_Returns)
  from z(1) obtain y where y: "recurseStep f M k (renameStep M k attrs) = Returns y"
      "arrayStep f k y = Returns z"
    by (auto dest: bind_Returns)
  have ne: "k' \<noteq> k" using Cons.prems(2) by simp
  have "hasProp z k' = hasProp y k'" using arrayStep_has_other [OF y(2) ne] .
  also have "\<dots> = hasProp (renameStep M k attrs) k'" using recurseStep_has_other [OF y(1) ne] .
  also have "\<dots> = hasProp attrs k'"
    using ne Cons.prems(3) by (intro renameStep_has_other) auto
  finally have "hasProp z k' = hasProp attrs k'" .
  moreover have "hasProp a k' = hasProp z k'"
    using Cons.IH [OF z(2)] Cons.prems by simp
  ultimately show ?case by simp
qed

lemma renameStep_gone:
  "renamed M k \<Longrightarrow> \<not> hasProp (renameStep M k attrs) k"
  by (simp add: renameStep_eq hasProp_deleteProp)

text \<open>
  Claim C3, amended. Take a where-object with distinct keys whose renamed keys do not
  collide, a key \<open>k\<close> that the function visits, and fuel for the depth of the object.
  The call returns an object, and: when \<open>k\<close> is renamed, the key \<open>k\<close> is gone from
  the result and its value sits under the field name as \<open>cloneDeep\<close> left it, not
  recursed into, whatever the type of the attribute; when \<open>k\<close> is not renamed and its attribute is of type HSTORE or JSON, a
  plain-object value stays under \<open>k\<close> as \<open>cloneDeep\<close> left it; when \<open>k\<close> is not
  renamed and not of type HSTORE or JSON, a plain-object value is replaced by what
  \<open>mapWhereFieldNames\<close> returns for it.
\<close>

theorem mapWhereFieldNames_per_key:
  assumes dist: "distinct (map fst kvs)"
    and nc: "noCollision M (getComplexKeys kvs)"
    and k: "k \<in> set (getComplexKeys kvs)"
    and fuel: "whereDepth (Obj kvs) \<le> Suc n"
  shows "\<exists>r. mapWhereFieldNames (Suc n) M (Obj kvs) = Returns (Obj r)
           \<and> (renamed M k \<longrightarrow>
                k \<notin> fst ` set r
                \<and> getProp r (target M k) = cloneValue False (getProp kvs k))
           \<and> (\<not> renamed M k \<and> isHstoreOrJson M k \<and> isPlainObject (getProp kvs k) \<longrightarrow>
                getProp r k = cloneValue False (getProp kvs k))
           \<and> (\<not> renamed M k \<and> \<not> isHstoreOrJson M k \<and> isPlainObject (getProp kvs k) \<longrightarrow>
                mapWhereFieldNames n M (cloneValue False (getProp kvs k)) = Returns (getProp r k))"
proof -
  let ?c = "map (\<lambda>(k, v). (k, cloneValue False v)) kvs"
  let ?f = "mapWhereFieldNames n M"
  let ?ks = "getComplexKeys kvs"
  let ?v = "cloneValue False (getProp kvs k)"
  have dks: "distinct ?ks" using dist by (rule distinct_getComplexKeys)
  obtain ks1 ks2 where ks: "?ks = ks1 @ k # ks2"
    using k by (auto dest: split_list)
  have k1: "k \<notin> set ks1" and k2: "k \<notin> set ks2"
    using dks ks by auto
  have dc: "depthLe n ?c"
  proof -
    have "whereDepth (Obj ?c) \<le> Suc n"
      using whereDepth_cloneValue [of "Obj kvs"] fuel by simp
    then show ?thesis using whereDepth_Obj_le by blast
  qed
  have ok: "recOk n ?f" by (rule mapWhereFieldNames_recOk)
  obtain s1 where s1: "whereLoop ?f M ks1 ?c = Returns s1" "depthLe n s1"
    using whereLoop_total [OF ok dc] by blast
  obtain s2 where s2: "whereLoop ?f M [k] s1 = Returns s2" "depthLe n s2"
    using whereLoop_total [OF ok s1(2)] by blast
  obtain r where r: "whereLoop ?f M ks2 s2 = Returns r"
    using whereLoop_total [OF ok s2(2)] by blast
  have step: "bind_outcome (recurseStep ?f M k (renameStep M k s1)) (arrayStep ?f k) = Returns s2"
    using s2(1) by (cases "bind_outcome (recurseStep ?f M k (renameStep M k s1)) (arrayStep ?f k)") simp_all
  have "whereLoop ?f M ?ks ?c = Returns r"
    using s1(1) step r by (simp add: ks whereLoop_append)
  then have res: "mapWhereFieldNames (Suc n) M (Obj kvs) = Returns (Obj r)"
    by (simp add: cloneDeep_def getComplexKeys_clone)
  have in1: "\<forall>x \<in> set ks1. x \<in> set ?ks" and in2: "\<forall>x \<in> set ks2. x \<in> set ?ks"
    using ks by auto
  have before: "getProp s1 k = ?v"
  proof -
    have "\<forall>x \<in> set ks1. renamed M x \<longrightarrow> target M x \<noteq> k"
      using noCollisionD(1) [OF nc] in1 k by metis
    then have "getProp s1 k = getProp ?c k"
      using whereLoop_other [OF s1(1) k1] by blast
    then show ?thesis by (simp add: getProp_clone)
  qed
  have A: "getProp r (target M k) = ?v" if ren: "renamed M k"
  proof -
    have tk: "target M k \<notin> set ?ks"
      using noCollisionD(1) [OF nc k ren] .
    then have ne: "target M k \<noteq> k" using k by auto
    have "s2 = renameStep M k s1"
      using step step_renamed(1) [OF ren ne, of ?f s1] by simp
    then have "getProp s2 (target M k) = ?v"
      using step_renamed(2) [OF ren ne, of s1] before by simp
    moreover have "target M k \<notin> set ks2" using tk ks by auto
    moreover have "\<forall>x \<in> set ks2. renamed M x \<longrightarrow> target M x \<noteq> target M k"
      using noCollisionD(2) [OF nc k ren] in2 k2 by metis
    ultimately show ?thesis
      using whereLoop_other [OF r, of "target M k"] by simp
  qed
  have after: "getProp r k = getProp s2 k"
  proof -
    have "\<forall>x \<in> set ks2. renamed M x \<longrightarrow> target M x \<noteq> k"
      using noCollisionD(1) [OF nc] in2 k by metis
    then show ?thesis
      using whereLoop_other [OF r k2] by blast
  qed
  have B: "getProp r k = ?v"
    if "\<not> renamed M k" "isHstoreOrJson M k" "isPlainObject (getProp kvs k)"
  proof -
    have "isPlainObject (getProp s1 k)"
      using that(3) before by (simp add: isPlainObject_clone)
    then have "s2 = s1"
      using step step_skip [OF that(1,2), of s1 ?f] by simp
    with after before show ?thesis by simp
  qed
  have C: "?f ?v = Returns (getProp r k)"
    if "\<not> renamed M k" "\<not> isHstoreOrJson M k" "isPlainObject (getProp kvs k)"
  proof -
    have pl: "isPlainObject (getProp s1 k)"
      using that(3) before by (simp add: isPlainObject_clone)
    have "whereDepth (getProp s1 k) \<le> n"
      using s1(2) by (rule depthLe_getProp)
    with ok pl obtain w where w: "?f (getProp s1 k) = Returns w" "isPlainObject w"
      using recOkD by blast
    then have "s2 = setProp s1 k w"
      using step step_recurse [of M k s1 ?f w, OF that(1,2) pl w] by simp
    then have "getProp r k = w"
      using after by (simp add: getProp_setProp)
    with w(1) before show ?thesis by simp
  qed
  have D: "k \<notin> fst ` set r" if ren: "renamed M k"
  proof -
    have tk: "target M k \<notin> set ?ks"
      using noCollisionD(1) [OF nc k ren] .
    then have ne: "target M k \<noteq> k" using k by auto
    have "s2 = renameStep M k s1"
      using step step_renamed(1) [OF ren ne, of ?f s1] by simp
    then have "\<not> hasProp s2 k"
      using renameStep_gone [OF ren] by simp
    moreover have "\<forall>x \<in> set ks2. renamed M x \<longrightarrow> target M x \<noteq> k"
      using noCollisionD(1) [OF nc] in2 k by metis
    then have "hasProp r k = hasProp s2 k"
      using whereLoop_has_other [OF r k2] by blast
    ultimately show ?thesis by (simp add: hasProp_def)
  qed
  from res A B C D show ?thesis by blast
qed

lemmas where_eval = cloneDeep_def getComplexKeys_def getOperators_def objectKeys_def
        ownKeys_def renameStep_def recurseStep_def arrayStep_def isHstoreOrJson_def
        mapOptionFieldNames_with_def userModel_def fieldKey_def deleteProp_def

text \<open>
  Claim C3, as stated, fails in its second half. The key \<open>firstName\<close> is not of type
  HSTORE or JSON, yet its plain-object value is not recursed into: the value was moved to
  \<open>first_name\<close> and the test reads the deleted key. Recursing would have rewritten the
  nested key, as the call on the inner object shows.
\<close>

theorem mapWhereFieldNames_renamed_not_recursed:
  "\<not> isHstoreOrJson userModel (SKey ''firstName'')
   \<and> mapWhereFieldNames (Suc (Suc 0)) userModel
       (Obj [(SKey ''firstName'', Obj [(SKey ''firstName'', Num 1)])])
     = Returns (Obj [(SKey ''first_name'', Obj [(SKey ''firstName'', Num 1)])])
   \<and> mapWhereFieldNames (Suc 0) userModel (Obj [(SKey ''firstName'', Num 1)])
     = Returns (Obj [(SKey ''first_name'', Num 1)])"
  by (simp add: where_eval)

theorem mapWhereFieldNames_per_key_witness:
  "distinct (map fst [(SKey ''meta'', Obj [(SKey ''firstName'', Num 1)]),
                      (SKey ''firstName'', Obj [(SKey ''firstName'', Num 2)]),
                      (OpSym 0, Obj [(SKey ''firstName'', Num 3)])])
   \<and> noCollision userModel (getComplexKeys [(SKey ''meta'', Obj [(SKey ''firstName'', Num 1)]),
                      (SKey ''firstName'', Obj [(SKey ''firstName'', Num 2)]),
                      (OpSym 0, Obj [(SKey ''firstName'', Num 3)])])
   \<and> whereDepth (Obj [(SKey ''meta'', Obj [(SKey ''firstName'', Num 1)]),
                      (SKey ''firstName'', Obj [(SKey ''firstName'', Num 2)]),
                      (OpSym 0, Obj [(SKey ''firstName'', Num 3)])]) \<le> Suc (Suc 0)
   \<and> renamed userModel (SKey ''firstName'')
   \<and> \<not> renamed userModel (SKey ''meta'') \<and> isHstoreOrJson userModel (SKey ''meta'')
   \<and> \<not> renamed userModel (OpSym 0) \<and> \<not> isHstoreOrJson userModel (OpSym 0)
   \<and> mapWhereFieldNames (Suc (Suc 0)) userModel
        (Obj [(SKey ''meta'', Obj [(SKey ''firstName'', Num 1)]),
              (SKey ''firstName'', Obj [(SKey ''firstName'', Num 2)]),
              (OpSym 0, Obj [(SKey ''firstName'', Num 3)])])
     = Returns (Obj [(SKey ''meta'', Obj [(SKey ''firstName'', Num 1)]),
                     (OpSym 0, Obj [(SKey ''first_name'', Num 3)]),
                     (SKey ''first_name'', Obj [(SKey ''firstName'', Num 2)])])"
proof -
  let ?kvs = "[(SKey ''meta'', Obj [(SKey ''firstName'', Num 1)]),
               (SKey ''firstName'', Obj [(SKey ''firstName'', Num 2)]),
               (OpSym 0, Obj [(SKey ''firstName'', Num 3)])]"
  have d: "distinct (map fst ?kvs)" by simp
  have nc: "noCollision userModel (getComplexKeys ?kvs)"
    by (simp add: noCollision_def renamed_def target_def where_eval)
  have fuel: "whereDepth (Obj ?kvs) \<le> Suc (Suc 0)" by simp
  have k1: "SKey ''firstName'' \<in> set (getComplexKeys ?kvs)"
    and k2: "SKey ''meta'' \<in> set (getComplexKeys ?kvs)"
    and k3: "OpSym 0 \<in> set (getComplexKeys ?kvs)"
    by (simp_all add: where_eval)
  have p: "renamed userModel (SKey ''firstName'')"
      "\<not> renamed userModel (SKey ''meta'')" "isHstoreOrJson userModel (SKey ''meta'')"
      "\<not> renamed userModel (OpSym 0)" "\<not> isHstoreOrJson userModel (OpSym 0)"
    by (simp_all add: renamed_def where_eval)
  have r: "mapWhereFieldNames (Suc (Suc 0)) userModel (Obj ?kvs)
     = Returns (Obj [(SKey ''meta'', Obj [(SKey ''firstName'', Num 1)]),
                     (OpSym 0, Obj [(SKey ''first_name'', Num 3)]),
                     (SKey ''first_name'', Obj [(SKey ''firstName'', Num 2)])])"
    using mapWhereFieldNames_per_key [OF d nc k1 fuel]
      mapWhereFieldNames_per_key [OF d nc k2 fuel]
      mapWhereFieldNames_per_key [OF d nc k3 fuel]
    by (simp add: where_eval)
  from d nc fuel p r show ?thesis by blast
qed

section \<open>Operator symbols through cloneDeep, mergeDefaults and merge\<close>

lemma cloneValue_same: "b \<or> \<not> hasClone v \<Longrightarrow> cloneValue b v = v"
proof (induction b v rule: cloneValue.induct)
  case (1 onlyPlain xs)
  then have "map (cloneValue onlyPlain) xs = xs"
    by (intro map_idI) (auto simp: list_ex_iff)
  then show ?case by simp
next
  case (2 onlyPlain kvs)
  then have "map (\<lambda>(k, v). (k, cloneValue onlyPlain v)) kvs = kvs"
    by (intro map_idI) (auto simp: list_ex_iff)
  then show ?case by simp
next
  case (3 onlyPlain n c)
  then show ?case by (cases c) auto
qed simp_all

lemma hasProp_clone: "hasProp (map (\<lambda>(k, v). (k, cloneValue b v)) kvs) k = hasProp kvs k"
  by (simp add: hasProp_def keys_clone del: map_map)

lemma assignMerged_symbols:
  assumes "isSymbol k"
  shows "getProp (assignMerged lm cz obj s v) k = getProp obj k"
    and "hasProp (assignMerged lm cz obj s v) k = hasProp obj k"
proof -
  have ne: "k \<noteq> SKey s" using assms by auto
  then show "getProp (assignMerged lm cz obj s v) k = getProp obj k"
    by (simp add: assignMerged_def Let_def getProp_setProp split: option.splits)
  from ne show "hasProp (assignMerged lm cz obj s v) k = hasProp obj k"
    by (simp add: assignMerged_def Let_def hasProp_setProp split: option.splits)
qed

lemma foldl_assignMerged_symbols:
  assumes "isSymbol k"
  shows "getProp (foldl (\<lambda>obj (k, srcValue). assignMerged lm cz obj k srcValue) obj es) k
           = getProp obj k
       \<and> hasProp (foldl (\<lambda>obj (k, srcValue). assignMerged lm cz obj k srcValue) obj es) k
           = hasProp obj k"
proof (induction es arbitrary: obj)
  case Nil
  then show ?case by simp
next
  case (Cons e es)
  then show ?case
    by (cases e) (simp add: assignMerged_symbols [OF assms])
qed

lemma mergeWith_symbols:
  assumes "isSymbol k"
  shows "getProp (mergeWith lm cz object source) k = getProp object k
       \<and> hasProp (mergeWith lm cz object source) k = hasProp object k"
  using foldl_assignMerged_symbols [OF assms] by (simp add: mergeWith_def)

lemma mergeEntry_total:
  assumes "mergeRecOk d rec" "depthLe d result" "whereDepth val \<le> d"
  shows "\<exists>r. mergeEntry rec result k val = Returns r \<and> depthLe d r"
proof (cases "val \<noteq> Undefined \<and> truthy (getProp result (SKey k))
              \<and> isPlainObject val \<and> isPlainObject (getProp result (SKey k))")
  case True
  have "whereDepth (getProp result (SKey k)) \<le> d"
    using assms(2) by (rule depthLe_getProp)
  with True assms(1,3) obtain m where m: "rec [getProp result (SKey k), val] = Returns m"
      "whereDepth m \<le> d"
    unfolding mergeRecOk_def by blast
  then have "depthLe d (setProp result (SKey k) m)"
    using assms(2) depthLe_setProp by blast
  with True m show ?thesis
    by (simp add: mergeEntry_def)
next
  case False
  have "depthLe d (setProp result (SKey k) val)"
    using assms(2,3) depthLe_setProp by blast
  moreover have "depthLe d (setProp result (SKey k) (Arr ys))" for ys
    using assms(2) by (simp add: depthLe_setProp)
  ultimately show ?thesis
    using False assms(2) by (auto simp: mergeEntry_def)
qed

lemma mergeEntries_total:
  assumes "mergeRecOk d rec"
  shows "depthLe d result \<Longrightarrow> list_all (\<lambda>(k, v). whereDepth v \<le> d) es \<Longrightarrow>
     \<exists>r. mergeEntries rec result es = Returns r \<and> depthLe d r"
proof (induction es arbitrary: result)
  case Nil
  then show ?case by simp
next
  case (Cons e es)
  obtain k v where e: "e = (k, v)" by (cases e)
  with Cons.prems have "whereDepth v \<le> d" by simp
  then obtain r1 where r1: "mergeEntry rec result k v = Returns r1" "depthLe d r1"
    using mergeEntry_total [OF assms Cons.prems(1)] by blast
  with Cons.IH [of r1] Cons.prems(2) e show ?case by simp
qed

lemma mergeArgs_total:
  assumes "mergeRecOk d rec"
  shows "depthLe d result \<Longrightarrow> list_all (entriesLe d) args \<Longrightarrow>
     \<exists>r. mergeArgs rec result args = Returns r \<and> depthLe d r"
proof (induction args arbitrary: result)
  case Nil
  then show ?case by simp
next
  case (Cons a args)
  then have "list_all (\<lambda>(k, v). whereDepth v \<le> d) (forOwnEntries a)"
    by (simp add: entriesLe_def)
  then obtain r1 where r1: "mergeEntries rec result (forOwnEntries a) = Returns r1" "depthLe d r1"
    using mergeEntries_total [OF assms Cons.prems(1)] by blast
  with Cons.IH [of r1] Cons.prems(2) show ?case by simp
qed

lemma depthLe_Nil: "depthLe d []"
  by (simp add: depthLe_def)

lemma merge_total_step:
  assumes "mergeRecOk n (merge n)" "list_all (entriesLe n) args"
  shows "\<exists>r. merge (Suc n) args = Returns (Obj r) \<and> depthLe n r"
proof -
  obtain r where "mergeArgs (merge n) [] args = Returns r" "depthLe n r"
    using mergeArgs_total [OF assms(1) depthLe_Nil assms(2)] by blast
  then show ?thesis by simp
qed

lemma string_entries_depth:
  "depthLe d kvs \<Longrightarrow> list_all (\<lambda>(k, v). whereDepth v \<le> d) (string_entries kvs)"
  by (induction kvs rule: string_entries.induct) (auto simp: depthLe_def)

lemma entriesLe_plain:
  assumes "isPlainObject x" "whereDepth x \<le> Suc d"
  shows "entriesLe d x"
proof -
  obtain kvs where x: "x = Obj kvs" using assms(1) by (cases x) auto
  then have "depthLe d kvs" using assms(2) whereDepth_Obj_le by blast
  then show ?thesis
    by (simp add: x entriesLe_def forOwnEntries_def string_entries_depth)
qed

lemma merge_recOk: "mergeRecOk n (merge n)"
proof (induction n)
  case 0
  show ?case
    unfolding mergeRecOk_def
  proof (intro allI impI)
    fix x y :: jsval
    assume "isPlainObject x \<and> isPlainObject y \<and> whereDepth x \<le> 0 \<and> whereDepth y \<le> 0"
    then show "\<exists>r. merge 0 [x, y] = Returns r \<and> whereDepth r \<le> 0"
      by (cases x) auto
  qed
next
  case (Suc n)
  show ?case
    unfolding mergeRecOk_def
  proof (intro allI impI)
    fix x y :: jsval
    assume a: "isPlainObject x \<and> isPlainObject y \<and> whereDepth x \<le> Suc n \<and> whereDepth y \<le> Suc n"
    then have "list_all (entriesLe n) [x, y]"
      by (simp add: entriesLe_plain)
    then obtain r where "merge (Suc n) [x, y] = Returns (Obj r)" "depthLe n r"
      using merge_total_step [OF Suc] by blast
    then show "\<exists>r. merge (Suc n) [x, y] = Returns r \<and> whereDepth r \<le> Suc n"
      using whereDepth_Obj_le by auto
  qed
qed

lemma merge_returns:
  assumes "list_all (entriesLe n) args"
  shows "\<exists>r. merge (Suc n) args = Returns (Obj r)"
  using merge_total_step [OF merge_recOk assms] by blast

lemma stringKeyed_setProp: "stringKeyed r \<Longrightarrow> stringKeyed (setProp r (SKey k) v)"
  by (induction r) (auto simp: stringKeyed_def)

lemma mergeEntry_stringKeyed:
  "mergeEntry rec result k val = Returns r \<Longrightarrow> stringKeyed result \<Longrightarrow> stringKeyed r"
  by (cases "rec [getProp result (SKey k), val]")
     (auto simp: mergeEntry_def stringKeyed_setProp split: if_splits)

lemma mergeEntries_stringKeyed:
  "mergeEntries rec result es = Returns r \<Longrightarrow> stringKeyed result \<Longrightarrow> stringKeyed r"
proof (induction es arbitrary: result)
  case Nil
  then show ?case by simp
next
  case (Cons e es)
  obtain k v where e: "e = (k, v)" by (cases e)
  with Cons.prems(1) obtain r1 where r1: "mergeEntry rec result k v = Returns r1"
      "mergeEntries rec r1 es = Returns r"
    by (auto dest: bind_Returns)
  with Cons.IH [of r1] mergeEntry_stringKeyed [OF r1(1) Cons.prems(2)] show ?case by simp
qed

lemma mergeArgs_stringKeyed:
  "mergeArgs rec result args = Returns r \<Longrightarrow> stringKeyed result \<Longrightarrow> stringKeyed r"
proof (induction args arbitrary: result)
  case Nil
  then show ?case by simp
next
  case (Cons a args)
  from Cons.prems(1) obtain r1 where r1: "mergeEntries rec result (forOwnEntries a) = Returns r1"
      "mergeArgs rec r1 args = Returns r"
    by (auto dest: bind_Returns)
  with Cons.IH [of r1] mergeEntries_stringKeyed [OF r1(1) Cons.prems(2)] show ?case by simp
qed

lemma merge_stringKeyed: "merge n args = Returns (Obj r) \<Longrightarrow> stringKeyed r"
proof (cases n)
  case 0
  assume "merge n args = Returns (Obj r)"
  with 0 show ?thesis by simp
next
  case (Suc m)
  assume "merge n args = Returns (Obj r)"
  with Suc have "mergeArgs (merge m) [] args = Returns r"
    by (auto dest: bind_Returns)
  then show ?thesis
    using mergeArgs_stringKeyed [of "merge m" "[]" args r] by (simp add: stringKeyed_def)
qed

lemma stringKeyed_hasProp: "stringKeyed r \<Longrightarrow> isSymbol k \<Longrightarrow> \<not> hasProp r k"
  by (auto simp: stringKeyed_def hasProp_def list_all_iff)

text \<open>
  Claim C1, as stated, fails for \<open>merge\<close>: \<open>forOwn\<close> visits string keys only, so an
  operator-symbol key of an argument is not in the result.
\<close>

theorem merge_drops_operator_key:
  "hasProp [(OpSym 0, Num 1), (SKey ''a'', Num 2)] (OpSym 0)
   \<and> merge (Suc 0) [Obj [(OpSym 0, Num 1), (SKey ''a'', Num 2)]] = Returns (Obj [(SKey ''a'', Num 2)])
   \<and> \<not> hasProp [(SKey ''a'', Num 2)] (OpSym 0)"
  by (simp add: hasProp_def forOwnEntries_def mergeEntry_def)

text \<open>
  Claim C1, amended. \<open>cloneDeep\<close> of a plain object returns an object with the same keys,
  operator symbols included, each with the clone of its value; the clone of a value is
  equal to the value when \<open>onlyPlain\<close> is set or the value holds no function with a
  \<open>clone\<close> method. \<open>mergeDefaults\<close> leaves every symbol-keyed property of its first
  argument in place with its value, and adds no symbol-keyed property. \<open>merge\<close>, given
  fuel for the depth of its arguments, returns an object without any symbol key.
\<close>

theorem operator_keys_clone_merge:
  "(\<exists>r. cloneDeep (Obj kvs) onlyPlain = Obj r
        \<and> hasProp r k = hasProp kvs k
        \<and> getProp r k = cloneValue onlyPlain (getProp kvs k))
   \<and> (onlyPlain \<or> \<not> hasClone v \<longrightarrow> cloneValue onlyPlain v = v)
   \<and> (isSymbol k \<longrightarrow>
        getProp (mergeDefaults baseIsNative lodashMerge a b) k = getProp a k
        \<and> hasProp (mergeDefaults baseIsNative lodashMerge a b) k = hasProp a k)
   \<and> (list_all (entriesLe n) args \<longrightarrow>
        (\<exists>r. merge (Suc n) args = Returns (Obj r) \<and> (isSymbol k \<longrightarrow> \<not> hasProp r k)))"
proof (intro conjI impI)
  show "\<exists>r. cloneDeep (Obj kvs) onlyPlain = Obj r
        \<and> hasProp r k = hasProp kvs k
        \<and> getProp r k = cloneValue onlyPlain (getProp kvs k)"
    by (simp add: cloneDeep_def hasProp_clone getProp_clone)
next
  assume "onlyPlain \<or> \<not> hasClone v"
  then show "cloneValue onlyPlain v = v" by (rule cloneValue_same)
next
  assume "isSymbol k"
  then show "getProp (mergeDefaults baseIsNative lodashMerge a b) k = getProp a k"
    by (simp add: mergeDefaults_def mergeWith_symbols)
next
  assume "isSymbol k"
  then show "hasProp (mergeDefaults baseIsNative lodashMerge a b) k = hasProp a k"
    by (simp add: mergeDefaults_def mergeWith_symbols)
next
  assume "list_all (entriesLe n) args"
  then obtain r where r: "merge (Suc n) args = Returns (Obj r)"
    using merge_returns by blast
  then have "stringKeyed r" by (rule merge_stringKeyed)
  with r show "\<exists>r. merge (Suc n) args = Returns (Obj r) \<and> (isSymbol k \<longrightarrow> \<not> hasProp r k)"
    by (auto dest: stringKeyed_hasProp)
qed

theorem operator_keys_clone_merge_witness:
  "cloneDeep (Obj [(OpSym 1, Arr [Obj [(SKey ''a'', Num 1)]]), (SKey ''b'', Null)]) False
     = Obj [(OpSym 1, Arr [Obj [(SKey ''a'', Num 1)]]), (SKey ''b'', Null)]
   \<and> \<not> hasClone (Arr [Obj [(SKey ''a'', Num 1)]])
   \<and> isSymbol (OpSym 1)
   \<and> getProp (mergeDefaults (\<lambda>v. False) (\<lambda>x y. Some y)
         [(OpSym 1, Num 1), (SKey ''a'', Num 2)] (Obj [(OpSym 1, Num 5), (SKey ''c'', Num 3)]))
       (OpSym 1) = Num 1
   \<and> list_all (entriesLe (Suc 0))
        [Obj [(SKey ''a'', Obj [(SKey ''x'', Num 1)])], Obj [(SKey ''a'', Obj [(OpSym 1, Num 2)])]]
   \<and> merge (Suc (Suc 0))
        [Obj [(SKey ''a'', Obj [(SKey ''x'', Num 1)])], Obj [(SKey ''a'', Obj [(OpSym 1, Num 2)])]]
     = Returns (Obj [(SKey ''a'', Obj [(SKey ''x'', Num 1)])])"
proof -
  let ?args = "[Obj [(SKey ''a'', Obj [(SKey ''x'', Num 1)])], Obj [(SKey ''a'', Obj [(OpSym 1, Num 2)])]]"
  have h1: "\<not> hasClone (Arr [Obj [(SKey ''a'', Num 1)]])" by simp
  have h2: "isSymbol (OpSym 1)" by simp
  have h3: "list_all (entriesLe (Suc 0)) ?args"
    by (simp add: entriesLe_def forOwnEntries_def)
  have m: "merge (Suc (Suc 0)) ?args = Returns (Obj [(SKey ''a'', Obj [(SKey ''x'', Num 1)])])"
    by (simp add: forOwnEntries_def mergeEntry_def)
  have c: "cloneDeep (Obj [(OpSym 1, Arr [Obj [(SKey ''a'', Num 1)]]), (SKey ''b'', Null)]) False
     = Obj [(OpSym 1, Arr [Obj [(SKey ''a'', Num 1)]]), (SKey ''b'', Null)]"
    by (simp add: cloneDeep_def)
  from operator_keys_clone_merge [of "[(OpSym 1, Arr [Obj [(SKey ''a'', Num 1)]]), (SKey ''b'', Null)]"
      False "OpSym 1" "Arr [Obj [(SKey ''a'', Num 1)]]" "\<lambda>v. False" "\<lambda>x y. Some y"
      "[(OpSym 1, Num 1), (SKey ''a'', Num 2)]" "Obj [(OpSym 1, Num 5), (SKey ''c'', Num 3)]"
      "Suc 0" ?args] h1 h2 h3 m c
  show ?thesis by simp
qed

section \<open>What the utilities write: the store is only extended\<close>





lemma extends_append: "extends s (s @ t)"
  by (simp add: extends_def)

lemma extends_alloc: "extends s (snd (alloc s c))"
  by (simp add: alloc_def extends_append)

lemma extends_update: "extends s0 s \<Longrightarrow> length s0 \<le> a \<Longrightarrow> extends s0 (s[a := c])"
  by (simp add: extends_def)


lemma extends_removeProp: "extends s0 s \<Longrightarrow> length s0 \<le> a \<Longrightarrow> extends s0 (removeProp s a k)"
  by (auto simp: removeProp_def extends_update split: option.splits cell.splits)

























































section \<open>Which utilities write into their arguments\<close>



end
